theory Spec2Isabelle
  imports Complex_Main "HOL-Library.Word" "HOL-Library.Log_Nat"
begin

section \<open>Market events and orders (Tick.h, OrderManager.h)\<close>

text \<open>
  A value of the C++ type \<open>double\<close> is a \<^typ>\<open>real\<close>; there are no infinities or NaN
  values.  The functions of the source are first given with exact arithmetic on these
  values.  Where a property depends on the rounding of \<open>double\<close> arithmetic, as money
  conservation does, the function is given a second time with the rounding of every
  operation written out (\<open>execute_double\<close> and the functions around it, below).
  \<open>uint64_t\<close> is a 64-bit word, whose arithmetic wraps around.
\<close>

type_synonym uint64 = "64 word"

record Tick =
  timestamp :: uint64
  price :: real
  volume :: real

record QuoteTick =
  timestamp :: uint64
  bid :: real
  ask :: real
  volume :: real

datatype OrderType = MARKET | LIMIT

datatype Side = BUY | SELL

record Order =
  side :: Side
  type :: OrderType
  timestamp :: uint64
  volume :: real
  price :: real

section \<open>The order manager (OrderManager.h, OrderManager.cpp)\<close>

record OrderManager =
  pendingOrders :: "Order list"
  position :: real
  cash :: real

text \<open>The constructor \<open>OrderManager(int cash)\<close>: no pending order, position 0.\<close>

definition OrderManager_ctor :: "int \<Rightarrow> OrderManager" where
  "OrderManager_ctor c = \<lparr>pendingOrders = [], position = 0, cash = real_of_int c\<rparr>"

text \<open>
  \<open>execute\<close> with exact arithmetic: the new position and cash are the exact sums.  The
  code computes them in \<open>double\<close>; \<open>execute_double\<close> below rounds each operation, and
  the two agree on an order whose operations do not round (\<open>execute_double_exact\<close>).
\<close>

definition execute :: "OrderManager \<Rightarrow> Order \<Rightarrow> OrderManager" where
  "execute om order =
     (if Order.side order = BUY
      then om\<lparr>position := position om + Order.volume order,
               cash := cash om - Order.volume order * Order.price order\<rparr>
      else om\<lparr>position := position om - Order.volume order,
               cash := cash om + Order.volume order * Order.price order\<rparr>)"

definition submit :: "OrderManager \<Rightarrow> Order \<Rightarrow> OrderManager" where
  "submit om order =
     (if Order.type order = MARKET then execute om order
      else om\<lparr>pendingOrders := pendingOrders om @ [order]\<rparr>)"

definition getPnL :: "OrderManager \<Rightarrow> real \<Rightarrow> real" where
  "getPnL om lastPrice = cash om + position om * lastPrice"

definition getPosition :: "OrderManager \<Rightarrow> real" where
  "getPosition om = position om"

text \<open>A sequence of orders routed through \<open>execute\<close>, one after the other.\<close>

fun execute_all :: "OrderManager \<Rightarrow> Order list \<Rightarrow> OrderManager" where
  "execute_all om [] = om"
| "execute_all om (order # orders) = execute_all (execute om order) orders"

text \<open>
  The loop of \<open>handleTick(const QuoteTick&)\<close>: the orders still to visit, the manager
  (whose position and cash \<open>execute\<close> changes during the scan) and the vector
  \<open>stillPending\<close> built so far.  After the scan \<open>stillPending\<close> replaces the pending orders.
\<close>

fun handleTick_quote_loop ::
  "QuoteTick \<Rightarrow> Order list \<Rightarrow> OrderManager \<Rightarrow> Order list \<Rightarrow> OrderManager" where
  "handleTick_quote_loop quote [] om stillPending = om\<lparr>pendingOrders := stillPending\<rparr>"
| "handleTick_quote_loop quote (order # rest) om stillPending =
     (if Order.side order = BUY \<and> Order.price order \<ge> ask quote
      then handleTick_quote_loop quote rest (execute om order) stillPending
      else if Order.side order = SELL \<and> Order.price order \<le> bid quote
      then handleTick_quote_loop quote rest (execute om order) stillPending
      else handleTick_quote_loop quote rest om (stillPending @ [order]))"

definition handleTick_quote :: "OrderManager \<Rightarrow> QuoteTick \<Rightarrow> OrderManager" where
  "handleTick_quote om quote = handleTick_quote_loop quote (pendingOrders om) om []"

text \<open>The loop of \<open>handleTick(const Tick&)\<close>, with the trade price in place of bid and ask.\<close>

fun handleTick_loop ::
  "Tick \<Rightarrow> Order list \<Rightarrow> OrderManager \<Rightarrow> Order list \<Rightarrow> OrderManager" where
  "handleTick_loop tick [] om stillPending = om\<lparr>pendingOrders := stillPending\<rparr>"
| "handleTick_loop tick (order # rest) om stillPending =
     (if Order.side order = BUY \<and> Tick.price tick \<le> Order.price order
      then handleTick_loop tick rest (execute om order) stillPending
      else if Order.side order = SELL \<and> Tick.price tick \<ge> Order.price order
      then handleTick_loop tick rest (execute om order) stillPending
      else handleTick_loop tick rest om (stillPending @ [order]))"

definition handleTick :: "OrderManager \<Rightarrow> Tick \<Rightarrow> OrderManager" where
  "handleTick om tick = handleTick_loop tick (pendingOrders om) om []"

text \<open>
  The spec's side-signed quantities of an order: a Buy counts with \<open>+\<close>, a Sell with \<open>-\<close>.
\<close>

definition signed_volume :: "Order \<Rightarrow> real" where
  "signed_volume order =
     (if Order.side order = BUY then Order.volume order else - Order.volume order)"

definition signed_notional :: "Order \<Rightarrow> real" where
  "signed_notional order = signed_volume order * Order.price order"

text \<open>
  The spec's fill rule for a Quote event: a Buy Limit fills when its price is at least the
  ask, a Sell Limit fills when its price is at most the bid.
\<close>

definition quote_fills :: "QuoteTick \<Rightarrow> Order \<Rightarrow> bool" where
  "quote_fills quote order =
     (case Order.side order of
        BUY \<Rightarrow> Order.price order \<ge> ask quote
      | SELL \<Rightarrow> Order.price order \<le> bid quote)"

section \<open>The arithmetic of \<open>double\<close> in the order manager\<close>

text \<open>
  IEEE 754 binary64 with the default rounding: the result of an operation is the exact
  result rounded to the nearest value with a significand of 53 bits, ties going to the
  even significand.  \<open>pow2 e\<close> is \<open>2\<close> to the power \<open>e\<close>, and \<open>exponent_of x\<close> is the
  exponent \<open>e\<close> with \<open>2 ^ e \<le> \<bar>x\<bar> < 2 ^ (e + 1)\<close> (\<open>exponent_of_bounds\<close>), from the bit
  length of an integer part.  \<open>fl x\<close> rounds \<open>x\<close> to a multiple of the spacing
  \<open>2 ^ (e - 52)\<close> of the doubles around \<open>x\<close>, the exponent being at least \<open>-1022\<close>
  (below, the doubles are subnormal and their spacing is \<open>2 ^ (-1074)\<close>).  A result of
  magnitude \<open>2 ^ 1024\<close> or more is an infinity in the code and has no counterpart here:
  \<open>is_double\<close>, the finite doubles, excludes it.
\<close>

definition pow2 :: "int \<Rightarrow> real" where
  "pow2 e = (if 0 \<le> e then 2 ^ nat e else 1 / 2 ^ nat (- e))"

definition exponent_of :: "real \<Rightarrow> int" where
  "exponent_of x =
     (if 1 \<le> \<bar>x\<bar> then bitlen \<lfloor>\<bar>x\<bar>\<rfloor> - 1 else - bitlen (\<lceil>1 / \<bar>x\<bar>\<rceil> - 1))"

definition round_even :: "real \<Rightarrow> int" where
  "round_even y =
     (let n = \<lfloor>y\<rfloor>; r = y - of_int n
      in if r < 1 / 2 then n else if 1 / 2 < r then n + 1 else if even n then n else n + 1)"

definition fl :: "real \<Rightarrow> real" where
  "fl x =
     (if x = 0 then 0
      else (let q = pow2 (max (exponent_of x) (- 1022) - 52)
            in of_int (round_even (x / q)) * q))"








section \<open>The statistics collector (StatsCollector.h, StatsCollector.cpp)\<close>

text \<open>
  A \<open>StatsFunction\<close> is a closure \<open>std::function<double()>\<close> that reads the collector
  through \<open>getPnLSeries\<close> and \<open>getReturnsSeries\<close> when it is called; it is modelled as a
  function of these two series.  The two \<open>std::unordered_map\<close>s (the registry and the
  result \<open>StatsMap\<close>) are association lists with at most one entry per key;
  \<open>umap_count\<close> is \<open>count\<close> and \<open>umap_assign\<close> is \<open>m[key] = value\<close>.  The order of an
  association list stands for the unspecified iteration order of the container.
\<close>

type_synonym StatsFunction = "real list \<Rightarrow> real list \<Rightarrow> real"

type_synonym StatsMap = "(string \<times> real) list"

fun umap_count :: "('k \<times> 'v) list \<Rightarrow> 'k \<Rightarrow> nat" where
  "umap_count [] key = 0"
| "umap_count ((k, v) # m) key = (if k = key then 1 else umap_count m key)"

fun umap_assign :: "('k \<times> 'v) list \<Rightarrow> 'k \<Rightarrow> 'v \<Rightarrow> ('k \<times> 'v) list" where
  "umap_assign [] key val = [(key, val)]"
| "umap_assign ((k, v) # m) key val =
     (if k = key then (k, val) # m else (k, v) # umap_assign m key val)"

record StatsCollector =
  initialPnL :: real
  pnlSeries :: "real list"
  returnsSeries :: "real list"
  statsFunction :: "(string \<times> StatsFunction) list"

definition StatsCollector_ctor :: StatsCollector where
  "StatsCollector_ctor =
     \<lparr>initialPnL = 0, pnlSeries = [], returnsSeries = [], statsFunction = []\<rparr>"

definition recordPnL :: "StatsCollector \<Rightarrow> real \<Rightarrow> StatsCollector" where
  "recordPnL s pnl =
     (let s1 = (if pnlSeries s = [] then s\<lparr>initialPnL := pnl\<rparr> else s);
          s2 = (if pnlSeries s1 \<noteq> []
                then (let prev = last (pnlSeries s1)
                      in s1\<lparr>returnsSeries :=
                            returnsSeries s1 @ [(pnl - prev) / (\<bar>prev\<bar> + 1 / 10 ^ 8)]\<rparr>)
                else s1)
      in s2\<lparr>pnlSeries := pnlSeries s2 @ [pnl]\<rparr>)"

definition addStat :: "StatsCollector \<Rightarrow> string \<Rightarrow> StatsFunction \<Rightarrow> StatsCollector" where
  "addStat s name function =
     (if umap_count (statsFunction s) name \<noteq> 0 then s
      else s\<lparr>statsFunction := umap_assign (statsFunction s) name function\<rparr>)"

text \<open>
  The loop of \<open>computeStats\<close> over the registry.  Beside the result map it keeps the list
  of the names whose function has been called, one entry per call, in the order of the calls.
\<close>

fun computeStats_loop ::
  "(string \<times> StatsFunction) list \<Rightarrow> StatsCollector \<Rightarrow> StatsMap \<times> string list
     \<Rightarrow> StatsMap \<times> string list" where
  "computeStats_loop [] s acc = acc"
| "computeStats_loop ((name, fn) # rest) s (results, calls) =
     computeStats_loop rest s
       (umap_assign results name (fn (pnlSeries s) (returnsSeries s)), calls @ [name])"

definition computeStats :: "StatsCollector \<Rightarrow> StatsMap \<times> string list" where
  "computeStats s =
     (if length (pnlSeries s) < 2 then ([], [])
      else computeStats_loop (statsFunction s) s ([], []))"

text \<open>The calls a client can make on a collector, and a sequence of them on a fresh one.\<close>

datatype StatsCall = RecordPnL real | AddStat string StatsFunction

fun stats_call :: "StatsCollector \<Rightarrow> StatsCall \<Rightarrow> StatsCollector" where
  "stats_call s (RecordPnL pnl) = recordPnL s pnl"
| "stats_call s (AddStat name function) = addStat s name function"

definition stats_calls :: "StatsCall list \<Rightarrow> StatsCollector" where
  "stats_calls calls = foldl stats_call StatsCollector_ctor calls"

section \<open>The bar aggregator (Bar.h, BarAggregator.h)\<close>

text \<open>The field \<open>open\<close> of the source is \<open>open_p\<close>: \<open>open\<close> is a keyword of Isabelle.\<close>

record Bar =
  startTimestamp :: uint64
  endTimestamp :: uint64
  open_p :: real
  high :: real
  low :: real
  close :: real
  volume :: real

record BarAggregator =
  windowSize :: uint64
  currentWindow :: uint64
  currentBar :: "Bar option"

definition BarAggregator_ctor :: "uint64 \<Rightarrow> BarAggregator" where
  "BarAggregator_ctor w = \<lparr>windowSize = w, currentWindow = 0, currentBar = None\<rparr>"

text \<open>
  \<open>update\<close> divides by the window size; an integer division by zero has no defined result
  in C++, and is the fault \<open>DivisionByZero\<close> here.  Otherwise \<open>update\<close> gives the returned
  optional bar and the aggregator after the call.
\<close>

datatype fault = DivisionByZero

definition update :: "BarAggregator \<Rightarrow> Tick \<Rightarrow> fault + (Bar option \<times> BarAggregator)" where
  "update agg tick =
     (if windowSize agg = 0 then Inl DivisionByZero
      else
        (let tickWindow = Tick.timestamp tick div windowSize agg * windowSize agg
         in if currentBar agg = None \<or> tickWindow \<noteq> currentWindow agg
            then
              (let completed = currentBar agg
               in Inr (completed,
                       agg\<lparr>currentBar := Some
                              \<lparr>startTimestamp = tickWindow,
                               endTimestamp = tickWindow + windowSize agg,
                               open_p = Tick.price tick,
                               high = Tick.price tick,
                               low = Tick.price tick,
                               close = Tick.price tick,
                               volume = Tick.volume tick\<rparr>,
                           currentWindow := tickWindow\<rparr>))
            else
              Inr (None,
                   agg\<lparr>currentBar :=
                         map_option
                           (\<lambda>bar. bar\<lparr>high := max (high bar) (Tick.price tick),
                                      low := min (low bar) (Tick.price tick),
                                      close := Tick.price tick,
                                      volume := Bar.volume bar + Tick.volume tick\<rparr>)
                           (currentBar agg)\<rparr>)))"

definition flush :: "BarAggregator \<Rightarrow> Bar option" where
  "flush agg = currentBar agg"

text \<open>A stream of ticks fed to \<open>update\<close>, keeping the aggregator and dropping the bars.\<close>

fun update_all :: "BarAggregator \<Rightarrow> Tick list \<Rightarrow> fault + BarAggregator" where
  "update_all agg [] = Inr agg"
| "update_all agg (tick # ticks) =
     (case update agg tick of
        Inl e \<Rightarrow> Inl e
      | Inr (completed, agg') \<Rightarrow> update_all agg' ticks)"

text \<open>The shape of a well-formed bar of an aggregator with window size \<open>w\<close>.\<close>

definition bar_ok :: "uint64 \<Rightarrow> Bar \<Rightarrow> bool" where
  "bar_ok w bar =
     (low bar \<le> min (open_p bar) (close bar) \<and> max (open_p bar) (close bar) \<le> high bar
      \<and> endTimestamp bar = startTimestamp bar + w)"

section \<open>The engine (TimeFrame.h, Strategy.h, QuoteStrategy.h, BacktestEngine.h, BacktestEngine.cpp)\<close>

datatype TimeFrame = MINUTE | FIVEMINTUES | HOUR | DAY

text \<open>
  A strategy object holds its own state (of type \<open>'s\<close>) and, after \<open>setOrderManager\<close>, a
  pointer to the order manager of its context, on which its callbacks may call any public
  member.  A callback is therefore a function from the strategy's state and the order
  manager to their new values.  The two constructors are the two dynamic types that the
  \<open>dynamic_cast\<close> of \<open>runAll\<close> tells apart: a class derived from \<open>QuoteStrategy\<close>, which
  is driven through \<open>onTick(const QuoteTick&)\<close>, and any other \<open>Strategy\<close>, which is
  driven through \<open>onTick(const Tick&)\<close>.
\<close>

type_synonym 's callback = "'s \<times> OrderManager \<Rightarrow> 's \<times> OrderManager"

datatype 's Strategy =
    TickStrategy (onStart: "'s callback") (onEnd: "'s callback")
      (onTick: "Tick \<Rightarrow> 's callback")
  | QuoteStrategy (onStart: "'s callback") (onEnd: "'s callback")
      (onQuoteTick: "QuoteTick \<Rightarrow> 's callback")

text \<open>The member \<open>worker\<close> (the thread handle) of the source is left out.\<close>

record 's StrategyContext =
  name :: string
  strategy :: "'s Strategy"
  strategyState :: 's
  tf :: TimeFrame
  orderManager :: OrderManager
  statistics :: StatsCollector

text \<open>
  \<open>StrategyContext\<close>'s constructor initialises \<open>orderManager(initialCash)\<close> with a
  \<open>double\<close>, and \<open>OrderManager\<close>'s constructor takes an \<open>int\<close>: the argument goes through
  the implicit conversion from \<open>double\<close> to \<open>int\<close>, which drops the fractional part
  (truncation towards zero) and has no defined result when the truncated value is not a
  value of \<open>int\<close> (32 bits).
\<close>

definition double_to_int :: "real \<Rightarrow> int option" where
  "double_to_int x =
     (let t = (if 0 \<le> x then \<lfloor>x\<rfloor> else \<lceil>x\<rceil>)
      in if - (2 ^ 31) \<le> t \<and> t \<le> 2 ^ 31 - 1 then Some t else None)"

definition StrategyContext_ctor ::
  "string \<Rightarrow> 's Strategy \<Rightarrow> 's \<Rightarrow> TimeFrame \<Rightarrow> real \<Rightarrow> 's StrategyContext option" where
  "StrategyContext_ctor nm strat st timeFrame initialCash =
     map_option
       (\<lambda>c. \<lparr>name = nm, strategy = strat, strategyState = st, tf = timeFrame,
              orderManager = OrderManager_ctor c, statistics = StatsCollector_ctor\<rparr>)
       (double_to_int initialCash)"

record 's BacktestEngine =
  data :: "Tick list"
  quoteData :: "QuoteTick list"
  strategies :: "'s StrategyContext list"

definition addStrategy ::
  "'s BacktestEngine \<Rightarrow> string \<Rightarrow> 's Strategy \<Rightarrow> 's \<Rightarrow> TimeFrame \<Rightarrow> real
     \<Rightarrow> 's BacktestEngine option" where
  "addStrategy engine nm strat st timeFrame initialCash =
     map_option (\<lambda>ctx. engine\<lparr>strategies := strategies engine @ [ctx]\<rparr>)
       (StrategyContext_ctor nm strat st timeFrame initialCash)"

text \<open>
  The body of the worker thread that \<open>runAll\<close> starts for one context.  The state of the
  two event scans is the strategy's state, the order manager and the statistics.
\<close>

type_synonym 's run_state = "'s \<times> OrderManager \<times> StatsCollector"

fun quote_loop :: "(QuoteTick \<Rightarrow> 's callback) \<Rightarrow> QuoteTick list \<Rightarrow> 's run_state \<Rightarrow> 's run_state" where
  "quote_loop f [] st = st"
| "quote_loop f (tick # ticks) (s, om, stats) =
     (let (s', om1) = f tick (s, om);
          om2 = handleTick_quote om1 tick;
          stats' = recordPnL stats (getPnL om2 ((bid tick + ask tick) / 2))
      in quote_loop f ticks (s', om2, stats'))"

fun tick_loop :: "(Tick \<Rightarrow> 's callback) \<Rightarrow> Tick list \<Rightarrow> 's run_state \<Rightarrow> 's run_state" where
  "tick_loop f [] st = st"
| "tick_loop f (tick # ticks) (s, om, stats) =
     (let (s', om1) = f tick (s, om);
          om2 = handleTick om1 tick;
          stats' = recordPnL stats (getPnL om2 (Tick.price tick))
      in tick_loop f ticks (s', om2, stats'))"

text \<open>
  An exception that leaves the thread's function ends the whole process
  (\<open>std::terminate\<close>); it is the \<open>Inl\<close> result of \<open>worker\<close>.  A worker that finishes gives
  the context after the run and the result of \<open>computeStats\<close>.  Printing the results and
  writing the CSV files are left out.
\<close>

datatype exception = runtime_error string

definition finish ::
  "'s StrategyContext \<Rightarrow> 's run_state
     \<Rightarrow> 's StrategyContext \<times> (StatsMap \<times> string list)" where
  "finish ctx st =
     (case st of (s, om, stats) \<Rightarrow>
        (let (s', om') = onEnd (strategy ctx) (s, om)
         in (ctx\<lparr>strategyState := s', orderManager := om', statistics := stats\<rparr>,
             computeStats stats)))"

text \<open>The state of a run after \<open>onStart\<close>, before the first event.\<close>

definition started :: "'s StrategyContext \<Rightarrow> 's run_state" where
  "started ctx =
     (let (s0, om0) = onStart (strategy ctx) (strategyState ctx, orderManager ctx)
      in (s0, om0, statistics ctx))"

definition worker ::
  "Tick list \<Rightarrow> QuoteTick list \<Rightarrow> 's StrategyContext
     \<Rightarrow> exception + ('s StrategyContext \<times> (StatsMap \<times> string list))" where
  "worker ticks quotes ctx =
     (let st0 = started ctx
      in case strategy ctx of
           QuoteStrategy _ _ onQuote \<Rightarrow>
             Inr (finish ctx (if quotes \<noteq> [] then quote_loop onQuote quotes st0 else st0))
         | TickStrategy _ _ onTrade \<Rightarrow>
             if ticks \<noteq> [] then Inr (finish ctx (tick_loop onTrade ticks st0))
             else Inl (runtime_error ''No data available for backtest.''))"

section \<open>Auxiliary notions for the proofs\<close>

text \<open>The order manager and the statistics of the state of a run.\<close>

definition ledger_of :: "'s run_state \<Rightarrow> OrderManager" where
  "ledger_of st = fst (snd st)"

definition stats_of :: "'s run_state \<Rightarrow> StatsCollector" where
  "stats_of st = snd (snd st)"

text \<open>The values that a sequence of calls records, in the order of the calls.\<close>

fun recorded :: "StatsCall list \<Rightarrow> real list" where
  "recorded [] = []"
| "recorded (RecordPnL pnl # calls) = pnl # recorded calls"
| "recorded (AddStat nm f # calls) = recorded calls"

text \<open>The relation between the two series of a collector, as the spec states it.\<close>

definition series_ok :: "StatsCollector \<Rightarrow> bool" where
  "series_ok s =
     (int (length (returnsSeries s)) = max 0 (int (length (pnlSeries s)) - 1)
      \<and> (\<forall>i < length (returnsSeries s).
            returnsSeries s ! i =
              (pnlSeries s ! (i + 1) - pnlSeries s ! i) / (\<bar>pnlSeries s ! i\<bar> + 1 / 10 ^ 8)))"

text \<open>The result entry of one registry entry: its name and the value of its function.\<close>

definition evaluate :: "StatsCollector \<Rightarrow> string \<times> StatsFunction \<Rightarrow> string \<times> real" where
  "evaluate s entry = (fst entry, snd entry (pnlSeries s) (returnsSeries s))"

text \<open>
  What links the two fields of an aggregator: its window is the start of its bar in
  progress, and that bar is well formed.
\<close>

definition agg_ok :: "BarAggregator \<Rightarrow> bool" where
  "agg_ok agg =
     (case currentBar agg of
        None \<Rightarrow> True
      | Some bar \<Rightarrow> currentWindow agg = startTimestamp bar \<and> bar_ok (windowSize agg) bar)"

text \<open>
  The spec's window start \<open>floor (timestamp / w) * w\<close>, computed on natural numbers, the
  bar seeded from an event and the bar in progress updated with an event.
\<close>

definition window_start :: "uint64 \<Rightarrow> Tick \<Rightarrow> uint64" where
  "window_start w tick = of_nat (unat (Tick.timestamp tick) div unat w * unat w)"

definition seed_bar :: "uint64 \<Rightarrow> Tick \<Rightarrow> Bar" where
  "seed_bar w tick =
     \<lparr>startTimestamp = window_start w tick, endTimestamp = window_start w tick + w,
      open_p = Tick.price tick, high = Tick.price tick, low = Tick.price tick,
      close = Tick.price tick, volume = Tick.volume tick\<rparr>"

definition extend_bar :: "Bar \<Rightarrow> Tick \<Rightarrow> Bar" where
  "extend_bar bar tick =
     bar\<lparr>high := max (high bar) (Tick.price tick), low := min (low bar) (Tick.price tick),
         close := Tick.price tick, volume := Bar.volume bar + Tick.volume tick\<rparr>"

section \<open>Money conservation of the order manager\<close>

text \<open>The sums of the exact functions, which the matching step uses as well.\<close>

lemma execute_all_cash:
  "cash (execute_all om orders) = cash om - (\<Sum>order\<leftarrow>orders. signed_notional order)"
  by (induction orders arbitrary: om)
     (simp_all add: execute_def signed_notional_def signed_volume_def)

lemma execute_all_position:
  "position (execute_all om orders) = position om + (\<Sum>order\<leftarrow>orders. signed_volume order)"
  by (induction orders arbitrary: om)
     (simp_all add: execute_def signed_volume_def)

lemmas fl_eval = fl_def exponent_of_def round_even_def pow2_def compute_bitlen Let_def

lemma bitlen_pos: "0 < n \<Longrightarrow> 1 \<le> bitlen n"
  using bitlen_eq_zero_iff [of n] bitlen_nonneg [of n] by linarith

lemma inverse_le_pow: "0 < (x::real) \<Longrightarrow> 1 / x \<le> 2 ^ k \<Longrightarrow> 1 / 2 ^ k \<le> x"
  by (simp add: field_simps)

lemma inverse_gt_pow: "0 < (x::real) \<Longrightarrow> 2 ^ k < 1 / x \<Longrightarrow> x < 1 / 2 ^ k"
  by (simp add: field_simps)

lemma ceiling_minus_one_pos: "1 < (y::real) \<Longrightarrow> 0 < \<lceil>y\<rceil> - 1"
  by linarith

lemma ceiling_minus_one_less: "real_of_int (\<lceil>y\<rceil> - 1) < y"
  by linarith

lemma exponent_of_small_eq:
  "\<not> 1 \<le> \<bar>x\<bar> \<Longrightarrow> exponent_of x = - bitlen (\<lceil>1 / \<bar>x\<bar>\<rceil> - 1)"
  by (simp add: exponent_of_def)

lemma pow2_neg: "(1::int) \<le> k \<Longrightarrow> 1 / 2 ^ nat k \<le> x \<Longrightarrow> pow2 (- k) \<le> x"
  by (simp add: pow2_def)

lemma pow2_neg_Suc:
  "(1::int) \<le> k \<Longrightarrow> x < 1 / 2 ^ nat (k - 1) \<Longrightarrow> x < 1 \<Longrightarrow> x < pow2 (- k + 1)"
  by (cases "k = 1") (simp_all add: pow2_def)

lemma exponent_of_large:
  assumes "1 \<le> \<bar>x\<bar>"
  shows "pow2 (exponent_of x) \<le> \<bar>x\<bar> \<and> \<bar>x\<bar> < pow2 (exponent_of x + 1)"
proof -
  let ?n = "\<lfloor>\<bar>x\<bar>\<rfloor>"
  from assms have n: "0 < ?n" by simp
  from bitlen_pos [OF n] have k: "1 \<le> bitlen ?n" .
  from bitlen_bounds [OF n]
  have lo: "2 ^ nat (bitlen ?n - 1) \<le> ?n" and hi: "?n < 2 ^ nat (bitlen ?n)" by simp_all
  have e: "exponent_of x = bitlen ?n - 1" using assms by (simp add: exponent_of_def)
  have "real_of_int (2 ^ nat (bitlen ?n - 1)) \<le> real_of_int ?n"
    using lo by (simp only: of_int_le_iff)
  also have "real_of_int ?n \<le> \<bar>x\<bar>" by simp
  finally have 1: "pow2 (exponent_of x) \<le> \<bar>x\<bar>"
    using k by (simp add: e pow2_def)
  have "\<bar>x\<bar> < real_of_int (?n + 1)" by linarith
  also have "?n + 1 \<le> 2 ^ nat (bitlen ?n)" using hi by simp
  then have "real_of_int (?n + 1) \<le> real_of_int (2 ^ nat (bitlen ?n))"
    by (simp only: of_int_le_iff)
  finally have 2: "\<bar>x\<bar> < pow2 (exponent_of x + 1)"
    using k by (simp add: e pow2_def)
  from 1 2 show ?thesis ..
qed

lemma exponent_of_small:
  assumes "x \<noteq> 0" and "\<not> 1 \<le> \<bar>x\<bar>"
  shows "pow2 (exponent_of x) \<le> \<bar>x\<bar> \<and> \<bar>x\<bar> < pow2 (exponent_of x + 1)"
proof -
  let ?m = "\<lceil>1 / \<bar>x\<bar>\<rceil>"
  let ?k = "bitlen (?m - 1)"
  from assms have pos: "0 < \<bar>x\<bar>" and less: "\<bar>x\<bar> < 1" by simp_all
  from pos less have y: "1 < 1 / \<bar>x\<bar>" by simp
  from ceiling_minus_one_pos [OF y] have m: "0 < ?m - 1" .
  from bitlen_pos [OF m] have k: "1 \<le> ?k" .
  from bitlen_bounds [OF m]
  have lo: "2 ^ nat (?k - 1) \<le> ?m - 1" and hi: "?m - 1 < 2 ^ nat ?k" by blast+
  have e: "exponent_of x = - ?k" using assms(2) by (rule exponent_of_small_eq)
  have "1 / \<bar>x\<bar> \<le> real_of_int ?m" by (rule le_of_int_ceiling)
  also have "?m \<le> 2 ^ nat ?k" using hi by linarith
  then have "real_of_int ?m \<le> real_of_int (2 ^ nat ?k)" by (simp only: of_int_le_iff)
  finally have "1 / \<bar>x\<bar> \<le> 2 ^ nat ?k" by simp
  with pos have "1 / 2 ^ nat ?k \<le> \<bar>x\<bar>" by (intro inverse_le_pow)
  with k have 1: "pow2 (exponent_of x) \<le> \<bar>x\<bar>"
    unfolding e by (intro pow2_neg)
  have "real_of_int (2 ^ nat (?k - 1)) \<le> real_of_int (?m - 1)"
    using lo by (simp only: of_int_le_iff)
  also have "real_of_int (?m - 1) < 1 / \<bar>x\<bar>" by (rule ceiling_minus_one_less)
  finally have "2 ^ nat (?k - 1) < 1 / \<bar>x\<bar>" by simp
  with pos have "\<bar>x\<bar> < 1 / 2 ^ nat (?k - 1)" by (intro inverse_gt_pow)
  with k less have 2: "\<bar>x\<bar> < pow2 (exponent_of x + 1)"
    unfolding e by (intro pow2_neg_Suc)
  from 1 2 show ?thesis ..
qed

lemma exponent_of_bounds:
  "x \<noteq> 0 \<Longrightarrow> pow2 (exponent_of x) \<le> \<bar>x\<bar> \<and> \<bar>x\<bar> < pow2 (exponent_of x + 1)"
  using exponent_of_large [of x] exponent_of_small [of x] by blast

lemma round_even_nearest: "\<bar>real_of_int (round_even y) - y\<bar> \<le> 1 / 2"
  unfolding round_even_def Let_def by (auto; linarith)

lemma round_even_of_int: "round_even (real_of_int n) = n"
  by (simp add: round_even_def)

lemma fl_examples:
  "fl (1 / 10) = 3602879701896397 / 36028797018963968"
  "fl 9007199254740993 = 9007199254740992"
  "fl 9007199254740995 = 9007199254740996"
  by (simp_all add: fl_eval)








section \<open>Matching pending orders against a quote\<close>

lemma handleTick_quote_loop_eq:
  "handleTick_quote_loop quote orders om stillPending =
     (execute_all om (filter (quote_fills quote) orders))
       \<lparr>pendingOrders := stillPending @ filter (\<lambda>order. \<not> quote_fills quote order) orders\<rparr>"
proof (induction orders arbitrary: om stillPending)
  case Nil
  show ?case by simp
next
  case (Cons order rest)
  show ?case
    by (cases "Order.side order") (simp_all add: Cons.IH quote_fills_def)
qed

lemma handleTick_quote_eq:
  "handleTick_quote om quote =
     (execute_all om (filter (quote_fills quote) (pendingOrders om)))
       \<lparr>pendingOrders := filter (\<lambda>order. \<not> quote_fills quote order) (pendingOrders om)\<rparr>"
  by (simp add: handleTick_quote_def handleTick_quote_loop_eq)

text \<open>
  Claim C4.  Quote matching: \<open>handleTick\<close> on a quote routes through \<open>execute\<close>, in full,
  exactly the pending orders that the fill rule selects (a Buy whose price is at least the
  ask, a Sell whose price is at most the bid) and leaves exactly the other ones pending, in
  their order; position and cash move by the whole volume of each filled order.  A single
  pending Buy Limit at 101 is filled by a quote when its ask is at most 101, and stays
  pending, with the manager unchanged, when the ask is above 101.
\<close>

theorem quote_matching:
  "handleTick_quote om quote =
     (execute_all om (filter (quote_fills quote) (pendingOrders om)))
       \<lparr>pendingOrders := filter (\<lambda>order. \<not> quote_fills quote order) (pendingOrders om)\<rparr>
   \<and> position (handleTick_quote om quote) =
       position om + (\<Sum>order\<leftarrow>filter (quote_fills quote) (pendingOrders om). signed_volume order)
   \<and> cash (handleTick_quote om quote) =
       cash om - (\<Sum>order\<leftarrow>filter (quote_fills quote) (pendingOrders om). signed_notional order)
   \<and> handleTick_quote
        \<lparr>pendingOrders = [\<lparr>side = BUY, type = LIMIT, timestamp = t, volume = v, price = 101\<rparr>],
         position = pos, cash = c\<rparr> quote =
       (if ask quote \<le> 101
        then \<lparr>pendingOrders = [], position = pos + v, cash = c - v * 101\<rparr>
        else \<lparr>pendingOrders = [\<lparr>side = BUY, type = LIMIT, timestamp = t, volume = v, price = 101\<rparr>],
              position = pos, cash = c\<rparr>)"
  by (simp add: handleTick_quote_eq execute_all_cash execute_all_position)
     (simp add: quote_fills_def execute_def)

section \<open>The registry of the statistics collector\<close>

lemma umap_count_assign: "umap_count (umap_assign m key val) key = 1"
  by (induction m key val rule: umap_assign.induct) simp_all

lemma umap_assign_absent:
  "umap_count m key = 0 \<Longrightarrow> umap_assign m key val = m @ [(key, val)]"
  by (induction m key val rule: umap_assign.induct) (simp_all split: if_splits)

lemma umap_count_keys: "umap_count m key = (if key \<in> fst ` set m then 1 else 0)"
  by (induction m key rule: umap_count.induct) auto

lemma map_of_umap_assign: "map_of (umap_assign m key val) key = Some val"
  by (induction m key val rule: umap_assign.induct) simp_all

text \<open>
  Claim C8.  First write wins: \<open>addStat\<close> under a name, followed by \<open>addStat\<close> under the
  same name with another function, leaves the collector as the first call alone does; the
  registry then holds the first function under the name when the name was not registered
  before, and the function it already held otherwise.
\<close>

theorem addStat_first_write_wins:
  "addStat (addStat s nm f) nm g = addStat s nm f
   \<and> map_of (statsFunction (addStat (addStat s nm f) nm g)) nm =
       (if umap_count (statsFunction s) nm = 0 then Some f
        else map_of (statsFunction s) nm)
   \<and> map_of (statsFunction (addStat (addStat StatsCollector_ctor nm f) nm g)) nm = Some f"
proof -
  have same: "addStat (addStat s nm f) nm g = addStat s nm f" for s
    by (simp add: addStat_def umap_count_assign)
  have first: "map_of (statsFunction (addStat s nm f)) nm =
       (if umap_count (statsFunction s) nm = 0 then Some f
        else map_of (statsFunction s) nm)" for s
    by (simp add: addStat_def map_of_umap_assign)
  from first [of StatsCollector_ctor]
  have "map_of (statsFunction (addStat StatsCollector_ctor nm f)) nm = Some f"
    by (simp add: StatsCollector_ctor_def)
  with same first show ?thesis by simp
qed

section \<open>The two series of the statistics collector\<close>

lemma series_ok_ctor: "series_ok StatsCollector_ctor"
  by (simp add: series_ok_def StatsCollector_ctor_def)

lemma series_ok_addStat: "series_ok s \<Longrightarrow> series_ok (addStat s nm f)"
  by (simp add: series_ok_def addStat_def)

lemma series_ok_recordPnL:
  assumes "series_ok s"
  shows "series_ok (recordPnL s pnl)"
proof (cases "pnlSeries s = []")
  case True
  with assms show ?thesis by (simp add: series_ok_def recordPnL_def)
next
  case False
  from assms False have len: "Suc (length (returnsSeries s)) = length (pnlSeries s)"
    by (cases "pnlSeries s") (simp_all add: series_ok_def)
  have ret: "returnsSeries (recordPnL s pnl) =
      returnsSeries s @ [(pnl - last (pnlSeries s)) / (\<bar>last (pnlSeries s)\<bar> + 1 / 10 ^ 8)]"
    and pnl: "pnlSeries (recordPnL s pnl) = pnlSeries s @ [pnl]"
    using False by (simp_all add: recordPnL_def Let_def)
  have last: "last (pnlSeries s) = pnlSeries s ! length (returnsSeries s)"
    using False len by (simp add: last_conv_nth flip: len)
  show ?thesis
    unfolding series_ok_def ret pnl
  proof (intro conjI allI impI)
    show "int (length (returnsSeries s @ [(pnl - last (pnlSeries s)) / (\<bar>last (pnlSeries s)\<bar> + 1 / 10 ^ 8)])) =
          max 0 (int (length (pnlSeries s @ [pnl])) - 1)"
      using len by simp
  next
    fix i
    assume "i < length (returnsSeries s @ [(pnl - last (pnlSeries s)) / (\<bar>last (pnlSeries s)\<bar> + 1 / 10 ^ 8)])"
    then consider "i < length (returnsSeries s)" | "i = length (returnsSeries s)"
      by (auto simp: less_Suc_eq)
    then show "(returnsSeries s @ [(pnl - last (pnlSeries s)) / (\<bar>last (pnlSeries s)\<bar> + 1 / 10 ^ 8)]) ! i =
        ((pnlSeries s @ [pnl]) ! (i + 1) - (pnlSeries s @ [pnl]) ! i) / (\<bar>(pnlSeries s @ [pnl]) ! i\<bar> + 1 / 10 ^ 8)"
    proof cases
      case 1
      with assms have "returnsSeries s ! i =
          (pnlSeries s ! (i + 1) - pnlSeries s ! i) / (\<bar>pnlSeries s ! i\<bar> + 1 / 10 ^ 8)"
        by (simp add: series_ok_def)
      with 1 len show ?thesis by (simp add: nth_append)
    next
      case 2
      with len last show ?thesis by (simp add: nth_append)
    qed
  qed
qed

lemma series_ok_stats_call: "series_ok s \<Longrightarrow> series_ok (stats_call s c)"
  by (cases c) (simp_all add: series_ok_recordPnL series_ok_addStat)

lemma series_ok_foldl: "series_ok s \<Longrightarrow> series_ok (foldl stats_call s calls)"
  by (induction calls arbitrary: s) (simp_all add: series_ok_stats_call)

lemma pnlSeries_recordPnL: "pnlSeries (recordPnL s pnl) = pnlSeries s @ [pnl]"
  by (simp add: recordPnL_def Let_def)

lemma pnlSeries_foldl:
  "pnlSeries (foldl stats_call s calls) = pnlSeries s @ recorded calls"
  by (induction calls arbitrary: s rule: recorded.induct)
     (simp_all add: pnlSeries_recordPnL addStat_def)

text \<open>
  Claim C5.  Series invariant: after any sequence of calls on a fresh collector (the
  recorded values in any interleaving with registrations), the value series holds the
  recorded values, the return series has \<open>max 0 (length of the value series - 1)\<close>
  entries, and its entry \<open>i\<close> is the difference of the values \<open>i + 1\<close> and \<open>i\<close> divided by
  the absolute value of value \<open>i\<close> plus \<open>1e-8\<close>.
\<close>

theorem series_invariant:
  "pnlSeries (stats_calls calls) = recorded calls
   \<and> int (length (returnsSeries (stats_calls calls)))
       = max 0 (int (length (pnlSeries (stats_calls calls))) - 1)
   \<and> (\<forall>i < length (returnsSeries (stats_calls calls)).
         returnsSeries (stats_calls calls) ! i =
           (pnlSeries (stats_calls calls) ! (i + 1) - pnlSeries (stats_calls calls) ! i)
             / (\<bar>pnlSeries (stats_calls calls) ! i\<bar> + 1 / 10 ^ 8))"
  using series_ok_foldl [OF series_ok_ctor, of calls]
  by (simp add: stats_calls_def series_ok_def pnlSeries_foldl StatsCollector_ctor_def)

theorem series_invariant_witness:
  "0 < length (returnsSeries (stats_calls [RecordPnL 100, RecordPnL 110]))
   \<and> returnsSeries (stats_calls [RecordPnL 100, RecordPnL 110]) ! 0
       = (110 - 100) / (\<bar>100\<bar> + 1 / 10 ^ 8)"
  using series_invariant [of "[RecordPnL 100, RecordPnL 110]"]
  by (simp add: stats_calls_def recordPnL_def StatsCollector_ctor_def)

section \<open>Computing the statistics\<close>

lemma computeStats_loop_distinct:
  "distinct (map fst results @ map fst registry) \<Longrightarrow>
   computeStats_loop registry s (results, calls) =
     (results @ map (evaluate s) registry, calls @ map fst registry)"
proof (induction registry arbitrary: results calls)
  case Nil
  show ?case by simp
next
  case (Cons entry registry)
  obtain nm fn where entry: "entry = (nm, fn)" by (cases entry)
  from Cons.prems entry have absent: "umap_count results nm = 0"
    by (auto simp: umap_count_keys)
  from Cons.prems entry
  have "distinct (map fst (results @ [(nm, fn (pnlSeries s) (returnsSeries s))]) @ map fst registry)"
    by auto
  then have "computeStats_loop registry s
        (results @ [(nm, fn (pnlSeries s) (returnsSeries s))], calls @ [nm]) =
      ((results @ [(nm, fn (pnlSeries s) (returnsSeries s))]) @ map (evaluate s) registry,
       (calls @ [nm]) @ map fst registry)"
    by (rule Cons.IH)
  with absent entry show ?case
    by (simp add: umap_assign_absent evaluate_def)
qed

lemma distinct_addStat:
  "distinct (map fst (statsFunction s)) \<Longrightarrow> distinct (map fst (statsFunction (addStat s nm f)))"
  by (auto simp: addStat_def umap_assign_absent umap_count_keys)

lemma statsFunction_recordPnL: "statsFunction (recordPnL s pnl) = statsFunction s"
  by (simp add: recordPnL_def Let_def)

lemma distinct_stats_call:
  "distinct (map fst (statsFunction s)) \<Longrightarrow> distinct (map fst (statsFunction (stats_call s c)))"
  by (cases c) (simp_all add: distinct_addStat statsFunction_recordPnL)

lemma distinct_foldl:
  "distinct (map fst (statsFunction s)) \<Longrightarrow>
   distinct (map fst (statsFunction (foldl stats_call s calls)))"
  by (induction calls arbitrary: s) (simp_all add: distinct_stats_call)

lemma distinct_stats_calls: "distinct (map fst (statsFunction (stats_calls calls)))"
  unfolding stats_calls_def
  by (rule distinct_foldl) (simp add: StatsCollector_ctor_def)

lemma computeStats_enough:
  assumes "2 \<le> length (pnlSeries (stats_calls calls))"
  shows "computeStats (stats_calls calls) =
     (map (evaluate (stats_calls calls)) (statsFunction (stats_calls calls)),
      map fst (statsFunction (stats_calls calls)))"
proof -
  have "computeStats_loop (statsFunction (stats_calls calls)) (stats_calls calls) ([], []) =
     ([] @ map (evaluate (stats_calls calls)) (statsFunction (stats_calls calls)),
      [] @ map fst (statsFunction (stats_calls calls)))"
    by (rule computeStats_loop_distinct) (simp add: distinct_stats_calls)
  with assms show ?thesis by (simp add: computeStats_def)
qed

lemma count_list_distinct: "distinct xs \<Longrightarrow> count_list xs x = (if x \<in> set xs then 1 else 0)"
  by (induction xs) auto

lemma map_fst_evaluate: "map fst (map (evaluate s) registry) = map fst registry"
  by (induction registry) (simp_all add: evaluate_def)

lemma map_of_evaluate:
  "map_of (map (evaluate s) registry) nm =
     map_option (\<lambda>fn. fn (pnlSeries s) (returnsSeries s)) (map_of registry nm)"
  by (induction registry) (auto simp: evaluate_def)

text \<open>
  Claim C7.  \<open>computeStats\<close> on a collector with fewer than two recorded values gives the
  empty map and calls no function, whatever is registered.  With two or more values, every
  name has as many entries in the result, and as many calls of its function, as it has
  registrations, namely one if it is registered and none otherwise; the entry of a
  registered name holds the value of its function on the two series.
\<close>

theorem computeStats_all_or_nothing:
  "(length (pnlSeries (stats_calls calls)) < 2 \<longrightarrow> computeStats (stats_calls calls) = ([], []))
   \<and> (2 \<le> length (pnlSeries (stats_calls calls)) \<longrightarrow>
        count_list (map fst (fst (computeStats (stats_calls calls)))) nm =
          (if nm \<in> fst ` set (statsFunction (stats_calls calls)) then 1 else 0)
        \<and> count_list (snd (computeStats (stats_calls calls))) nm =
          (if nm \<in> fst ` set (statsFunction (stats_calls calls)) then 1 else 0)
        \<and> map_of (fst (computeStats (stats_calls calls))) nm =
            map_option (\<lambda>fn. fn (pnlSeries (stats_calls calls)) (returnsSeries (stats_calls calls)))
              (map_of (statsFunction (stats_calls calls)) nm))"
proof (intro conjI impI)
  assume "length (pnlSeries (stats_calls calls)) < 2"
  then show "computeStats (stats_calls calls) = ([], [])"
    by (simp add: computeStats_def)
next
  assume enough: "2 \<le> length (pnlSeries (stats_calls calls))"
  note eq = computeStats_enough [OF enough]
  show "count_list (map fst (fst (computeStats (stats_calls calls)))) nm =
          (if nm \<in> fst ` set (statsFunction (stats_calls calls)) then 1 else 0)"
    unfolding eq fst_conv map_fst_evaluate
    using count_list_distinct [OF distinct_stats_calls [of calls], of nm] by simp
  show "count_list (snd (computeStats (stats_calls calls))) nm =
          (if nm \<in> fst ` set (statsFunction (stats_calls calls)) then 1 else 0)"
    unfolding eq snd_conv
    using count_list_distinct [OF distinct_stats_calls [of calls], of nm] by simp
  show "map_of (fst (computeStats (stats_calls calls))) nm =
            map_option (\<lambda>fn. fn (pnlSeries (stats_calls calls)) (returnsSeries (stats_calls calls)))
              (map_of (statsFunction (stats_calls calls)) nm)"
    unfolding eq fst_conv by (rule map_of_evaluate)
qed

theorem computeStats_all_or_nothing_witness:
  "computeStats (stats_calls [AddStat ''X'' (\<lambda>pnl ret. last pnl), RecordPnL 1]) = ([], [])
   \<and> count_list (snd (computeStats
        (stats_calls [AddStat ''X'' (\<lambda>pnl ret. last pnl), RecordPnL 1, RecordPnL 2]))) ''X'' = 1
   \<and> map_of (fst (computeStats
        (stats_calls [AddStat ''X'' (\<lambda>pnl ret. last pnl), RecordPnL 1, RecordPnL 2]))) ''X'' = Some 2"
  using computeStats_all_or_nothing [of "[AddStat ''X'' (\<lambda>pnl ret. last pnl), RecordPnL 1]" "''X''"]
    computeStats_all_or_nothing [of "[AddStat ''X'' (\<lambda>pnl ret. last pnl), RecordPnL 1, RecordPnL 2]" "''X''"]
  by (simp add: stats_calls_def StatsCollector_ctor_def addStat_def recordPnL_def)

section \<open>The transitions of the bar aggregator\<close>

lemma agg_ok_ctor: "agg_ok (BarAggregator_ctor w)"
  by (simp add: agg_ok_def BarAggregator_ctor_def)

lemma update_windowSize:
  "update agg tick = Inr (completed, agg') \<Longrightarrow> windowSize agg' = windowSize agg"
  by (auto simp: update_def Let_def split: if_splits)

lemma update_agg_ok:
  assumes "agg_ok agg" and "update agg tick = Inr (completed, agg')"
  shows "agg_ok agg'"
proof (cases "currentBar agg = None \<or>
    Tick.timestamp tick div windowSize agg * windowSize agg \<noteq> currentWindow agg")
  case True
  with assms(2) show ?thesis
    by (auto simp: update_def Let_def agg_ok_def bar_ok_def split: if_splits)
next
  case False
  then obtain bar where bar: "currentBar agg = Some bar" by auto
  with assms(1) have "currentWindow agg = startTimestamp bar" "bar_ok (windowSize agg) bar"
    by (simp_all add: agg_ok_def)
  with assms(2) False bar show ?thesis
    by (auto simp: update_def Let_def agg_ok_def bar_ok_def split: if_splits)
qed

lemma update_completed:
  "update agg tick = Inr (Some bar, agg') \<Longrightarrow> currentBar agg = Some bar"
  by (auto simp: update_def Let_def split: if_splits)

lemma update_all_windowSize:
  "update_all agg ticks = Inr agg' \<Longrightarrow> windowSize agg' = windowSize agg"
proof (induction ticks arbitrary: agg)
  case Nil
  then show ?case by simp
next
  case (Cons tick ticks)
  then show ?case
    by (auto split: sum.splits dest: update_windowSize)
qed

lemma update_all_agg_ok:
  "agg_ok agg \<Longrightarrow> update_all agg ticks = Inr agg' \<Longrightarrow> agg_ok agg'"
proof (induction ticks arbitrary: agg)
  case Nil
  then show ?case by simp
next
  case (Cons tick ticks)
  then show ?case
    by (auto split: sum.splits dest: update_agg_ok)
qed

lemma update_all_total:
  "windowSize agg \<noteq> 0 \<Longrightarrow> \<exists>agg'. update_all agg ticks = Inr agg'"
proof (induction ticks arbitrary: agg)
  case Nil
  show ?case by simp
next
  case (Cons tick ticks)
  from Cons.prems have "\<exists>completed agg1. update agg tick = Inr (completed, agg1)"
    by (simp add: update_def Let_def)
  then obtain completed agg1 where step: "update agg tick = Inr (completed, agg1)"
    by blast
  with Cons.prems have "windowSize agg1 \<noteq> 0" by (simp add: update_windowSize)
  then obtain agg' where "update_all agg1 ticks = Inr agg'" using Cons.IH by blast
  with step show ?case by simp
qed

lemma reachable_ok:
  assumes "update_all (BarAggregator_ctor w) ticks = Inr agg"
  shows "agg_ok agg" and "windowSize agg = w"
  using assms update_all_agg_ok [OF agg_ok_ctor assms] update_all_windowSize [OF assms]
  by (simp_all add: BarAggregator_ctor_def)

lemma window_start_unat:
  fixes t w :: uint64
  shows "unat (t div w * w) = unat t div unat w * unat w"
proof -
  have "unat (t div w) * unat w \<le> unat t"
    by (simp add: unat_div)
  also have "unat t < 2 ^ 64"
    using unsigned_less [of t, where ?'a = nat] by simp
  finally have "unat (t div w) * unat w < 2 ^ LENGTH(64)" by simp
  then have "unat (t div w * w) = unat (t div w) * unat w"
    by (simp add: unat_mult_lem [THEN iffD1])
  then show ?thesis by (simp add: unat_div)
qed


lemma window_start_word: "window_start w tick = Tick.timestamp tick div w * w"
proof -
  have "window_start w tick = of_nat (unat (Tick.timestamp tick div w * w))"
    by (simp only: window_start_def window_start_unat)
  then show ?thesis by simp
qed

lemma bar_ok_end_unat:
  "bar_ok w bar \<Longrightarrow> unat (startTimestamp bar) + unat w < 2 ^ 64 \<Longrightarrow>
   unat (endTimestamp bar) = unat (startTimestamp bar) + unat w"
  by (simp add: bar_ok_def unat_add_lem [THEN iffD1])

text \<open>
  Claim C3.  Transition rule: on an aggregator with window size \<open>w\<close> (not 0) reached from
  a new one by any stream of events, \<open>update\<close> with an event whose window start is
  \<open>floor (timestamp / w) * w\<close> does the following.  With no bar in progress, or with one whose
  start differs from the window start, it returns the bar in progress (nothing if there is
  none) and opens a bar with open, high, low and close equal to the event's price, the
  event's volume, the window start as start and the window start plus \<open>w\<close> (the sum of
  \<open>uint64_t\<close>) as end.  Otherwise it returns nothing and the bar in progress takes the
  maximum of its high and the price, the minimum of its low and the price, the price as
  close, and the event's volume added to its own.  With \<open>w = 60000\<close> and events at 1000
  (price 10), 59000 (price 12) and 61000 (price 9), the first two calls return nothing, the
  third returns the bar with open 10, high 12, low 10, close 12 and the sum of the first
  two volumes, and \<open>flush\<close> then returns the bar seeded from the third event.
\<close>

theorem update_transition:
  assumes "w \<noteq> 0" and "update_all (BarAggregator_ctor w) ticks = Inr agg"
  shows "update agg tick =
      (case currentBar agg of
         None \<Rightarrow>
           Inr (None, agg\<lparr>currentBar := Some (seed_bar w tick),
                           currentWindow := window_start w tick\<rparr>)
       | Some bar \<Rightarrow>
           if window_start w tick \<noteq> startTimestamp bar
           then Inr (Some bar, agg\<lparr>currentBar := Some (seed_bar w tick),
                                  currentWindow := window_start w tick\<rparr>)
           else Inr (None, agg\<lparr>currentBar := Some (extend_bar bar tick)\<rparr>))
    \<and> (case update (BarAggregator_ctor 60000) \<lparr>Tick.timestamp = 1000, Tick.price = 10, Tick.volume = v1\<rparr> of
         Inl e \<Rightarrow> False
       | Inr (r1, a1) \<Rightarrow> r1 = None \<and>
          (case update a1 \<lparr>Tick.timestamp = 59000, Tick.price = 12, Tick.volume = v2\<rparr> of
             Inl e \<Rightarrow> False
           | Inr (r2, a2) \<Rightarrow> r2 = None \<and>
              (case update a2 \<lparr>Tick.timestamp = 61000, Tick.price = 9, Tick.volume = v3\<rparr> of
                 Inl e \<Rightarrow> False
               | Inr (r3, a3) \<Rightarrow>
                   r3 = Some \<lparr>startTimestamp = 0, endTimestamp = 60000, open_p = 10,
                              high = 12, low = 10, close = 12, volume = v1 + v2\<rparr>
                   \<and> flush a3 = Some \<lparr>startTimestamp = 60000, endTimestamp = 120000,
                        open_p = 9, high = 9, low = 9, close = 9, volume = v3\<rparr>)))"
proof (rule conjI)
  from assms(2) have ok: "agg_ok agg" and size: "windowSize agg = w"
    by (rule reachable_ok)+
  show "update agg tick =
      (case currentBar agg of
         None \<Rightarrow>
           Inr (None, agg\<lparr>currentBar := Some (seed_bar w tick),
                           currentWindow := window_start w tick\<rparr>)
       | Some bar \<Rightarrow>
           if window_start w tick \<noteq> startTimestamp bar
           then Inr (Some bar, agg\<lparr>currentBar := Some (seed_bar w tick),
                                  currentWindow := window_start w tick\<rparr>)
           else Inr (None, agg\<lparr>currentBar := Some (extend_bar bar tick)\<rparr>))"
  proof (cases "currentBar agg")
    case None
    with assms(1) size show ?thesis
      by (simp add: update_def Let_def seed_bar_def window_start_word)
  next
    case (Some bar)
    with ok have "currentWindow agg = startTimestamp bar"
      by (simp add: agg_ok_def)
    with Some assms(1) size show ?thesis
      by (simp add: update_def Let_def seed_bar_def extend_bar_def window_start_word)
  qed
next
  show "case update (BarAggregator_ctor 60000) \<lparr>Tick.timestamp = 1000, Tick.price = 10, Tick.volume = v1\<rparr> of
         Inl e \<Rightarrow> False
       | Inr (r1, a1) \<Rightarrow> r1 = None \<and>
          (case update a1 \<lparr>Tick.timestamp = 59000, Tick.price = 12, Tick.volume = v2\<rparr> of
             Inl e \<Rightarrow> False
           | Inr (r2, a2) \<Rightarrow> r2 = None \<and>
              (case update a2 \<lparr>Tick.timestamp = 61000, Tick.price = 9, Tick.volume = v3\<rparr> of
                 Inl e \<Rightarrow> False
               | Inr (r3, a3) \<Rightarrow>
                   r3 = Some \<lparr>startTimestamp = 0, endTimestamp = 60000, open_p = 10,
                              high = 12, low = 10, close = 12, volume = v1 + v2\<rparr>
                   \<and> flush a3 = Some \<lparr>startTimestamp = 60000, endTimestamp = 120000,
                        open_p = 9, high = 9, low = 9, close = 9, volume = v3\<rparr>))"
    by (simp add: update_def Let_def BarAggregator_ctor_def flush_def)
qed

theorem update_transition_witness:
  "update
     \<lparr>windowSize = 60000, currentWindow = 0,
      currentBar = Some \<lparr>startTimestamp = 0, endTimestamp = 60000, open_p = 10, high = 12,
                          low = 10, close = 12, volume = 7\<rparr>\<rparr>
     \<lparr>Tick.timestamp = 61000, Tick.price = 9, Tick.volume = 4\<rparr> =
   Inr (Some \<lparr>startTimestamp = 0, endTimestamp = 60000, open_p = 10, high = 12,
               low = 10, close = 12, volume = 7\<rparr>,
        \<lparr>windowSize = 60000, currentWindow = 60000,
         currentBar = Some \<lparr>startTimestamp = 60000, endTimestamp = 120000, open_p = 9,
                             high = 9, low = 9, close = 9, volume = 4\<rparr>\<rparr>)"
proof -
  have w: "(60000 :: uint64) \<noteq> 0" by simp
  have run: "update_all (BarAggregator_ctor 60000)
      [\<lparr>Tick.timestamp = 1000, Tick.price = 10, Tick.volume = 3\<rparr>, \<lparr>Tick.timestamp = 59000, Tick.price = 12, Tick.volume = 4\<rparr>] =
     Inr \<lparr>windowSize = 60000, currentWindow = 0,
      currentBar = Some \<lparr>startTimestamp = 0, endTimestamp = 60000, open_p = 10, high = 12,
                          low = 10, close = 12, volume = 7\<rparr>\<rparr>"
    by (simp add: update_def Let_def BarAggregator_ctor_def)
  have ws: "window_start 60000 \<lparr>Tick.timestamp = 61000, Tick.price = 9, Tick.volume = 4\<rparr> = 60000"
    by (simp add: window_start_def)
  from update_transition [OF w run, of "\<lparr>Tick.timestamp = 61000, Tick.price = 9, Tick.volume = 4\<rparr>"]
  show ?thesis by (simp add: seed_bar_def ws)
qed

text \<open>
  Claim C10.  Bar invariant: on an aggregator with window size \<open>w\<close> reached from a new one
  by any stream of events, the bar in progress, the bar that \<open>flush\<close> returns and the bar
  that a further \<open>update\<close> returns all have \<open>low \<le> min open close\<close>,
  \<open>max open close \<le> high\<close> and an end equal to the start plus \<open>w\<close> (the sum of
  \<open>uint64_t\<close>); after a further \<open>update\<close>, which seeds a bar or updates the one in
  progress, there is a bar in progress and it satisfies the same.
\<close>

theorem bar_invariant:
  assumes "update_all (BarAggregator_ctor w) ticks = Inr agg"
  shows "(\<forall>bar. currentBar agg = Some bar \<longrightarrow> bar_ok w bar)
    \<and> (\<forall>bar. flush agg = Some bar \<longrightarrow> bar_ok w bar)
    \<and> (\<forall>tick completed agg'. update agg tick = Inr (completed, agg') \<longrightarrow>
          (\<forall>bar. completed = Some bar \<longrightarrow> bar_ok w bar)
          \<and> (\<exists>bar. currentBar agg' = Some bar \<and> bar_ok w bar))"
proof -
  from assms have ok: "agg_ok agg" and size: "windowSize agg = w"
    by (rule reachable_ok)+
  have current: "bar_ok w bar" if "currentBar agg = Some bar" for bar
    using ok size that by (simp add: agg_ok_def)
  have step: "(\<forall>bar. completed = Some bar \<longrightarrow> bar_ok w bar)
      \<and> (\<exists>bar. currentBar agg' = Some bar \<and> bar_ok w bar)"
    if upd: "update agg tick = Inr (completed, agg')" for tick completed agg'
  proof
    show "\<forall>bar. completed = Some bar \<longrightarrow> bar_ok w bar"
      using upd current by (auto dest: update_completed)
    from update_agg_ok [OF ok upd] update_windowSize [OF upd] size
    have ok': "agg_ok agg'" and size': "windowSize agg' = w" by simp_all
    from upd have "currentBar agg' \<noteq> None"
      by (auto simp: update_def Let_def split: if_splits)
    then obtain bar where "currentBar agg' = Some bar" by auto
    with ok' size' show "\<exists>bar. currentBar agg' = Some bar \<and> bar_ok w bar"
      by (simp add: agg_ok_def)
  qed
  from current step show ?thesis by (simp add: flush_def)
qed

theorem bar_invariant_witness:
  "bar_ok 60000 \<lparr>startTimestamp = 0, endTimestamp = 60000, open_p = 10, high = 12,
                  low = 10, close = 12, volume = 7\<rparr>
   \<and> bar_ok 60000 \<lparr>startTimestamp = 60000, endTimestamp = 120000, open_p = 9,
                             high = 9, low = 9, close = 9, volume = 4\<rparr>"
proof -
  have run: "update_all (BarAggregator_ctor 60000)
      [\<lparr>Tick.timestamp = 1000, Tick.price = 10, Tick.volume = 3\<rparr>, \<lparr>Tick.timestamp = 59000, Tick.price = 12, Tick.volume = 4\<rparr>] =
     Inr \<lparr>windowSize = 60000, currentWindow = 0,
      currentBar = Some \<lparr>startTimestamp = 0, endTimestamp = 60000, open_p = 10, high = 12,
                          low = 10, close = 12, volume = 7\<rparr>\<rparr>"
    by (simp add: update_def Let_def BarAggregator_ctor_def)
  have upd: "update
     \<lparr>windowSize = 60000, currentWindow = 0,
      currentBar = Some \<lparr>startTimestamp = 0, endTimestamp = 60000, open_p = 10, high = 12,
                          low = 10, close = 12, volume = 7\<rparr>\<rparr>
     \<lparr>Tick.timestamp = 61000, Tick.price = 9, Tick.volume = 4\<rparr> =
   Inr (Some \<lparr>startTimestamp = 0, endTimestamp = 60000, open_p = 10, high = 12,
               low = 10, close = 12, volume = 7\<rparr>,
        \<lparr>windowSize = 60000, currentWindow = 60000,
         currentBar = Some \<lparr>startTimestamp = 60000, endTimestamp = 120000, open_p = 9,
                             high = 9, low = 9, close = 9, volume = 4\<rparr>\<rparr>)"
    by (simp add: update_def Let_def)
  from bar_invariant [OF run] upd show ?thesis by fastforce
qed

section \<open>The run of one strategy\<close>

lemma quote_loop_snoc:
  "quote_loop f (quotes @ [quote]) st = quote_loop f [quote] (quote_loop f quotes st)"
proof (induction quotes arbitrary: st)
  case Nil
  show ?case by simp
next
  case (Cons q quotes)
  obtain s om stats where "st = (s, om, stats)" by (cases st)
  then show ?case by (simp add: Cons.IH Let_def split: prod.splits)
qed

lemma quote_loop_single:
  "pnlSeries (stats_of (quote_loop f [quote] st)) =
     pnlSeries (stats_of st) @
       [cash (ledger_of (quote_loop f [quote] st))
        + position (ledger_of (quote_loop f [quote] st)) * ((bid quote + ask quote) / 2)]"
proof -
  obtain s om stats where "st = (s, om, stats)" by (cases st)
  then show ?thesis
    by (simp add: Let_def stats_of_def ledger_of_def pnlSeries_recordPnL getPnL_def
          split: prod.splits)
qed

lemma quote_loop_pnl:
  "length (pnlSeries (stats_of (quote_loop f quotes st))) =
     length (pnlSeries (stats_of st)) + length quotes
   \<and> (\<forall>i < length quotes.
        pnlSeries (stats_of (quote_loop f quotes st)) ! (length (pnlSeries (stats_of st)) + i) =
          cash (ledger_of (quote_loop f (take (Suc i) quotes) st))
          + position (ledger_of (quote_loop f (take (Suc i) quotes) st))
            * ((bid (quotes ! i) + ask (quotes ! i)) / 2))"
proof (induction quotes rule: rev_induct)
  case Nil
  show ?case by simp
next
  case (snoc quote quotes)
  let ?st = "quote_loop f quotes st"
  let ?st' = "quote_loop f (quotes @ [quote]) st"
  have step: "pnlSeries (stats_of ?st') =
      pnlSeries (stats_of ?st) @
        [cash (ledger_of ?st') + position (ledger_of ?st') * ((bid quote + ask quote) / 2)]"
    unfolding quote_loop_snoc by (rule quote_loop_single)
  from snoc.IH have len: "length (pnlSeries (stats_of ?st)) =
      length (pnlSeries (stats_of st)) + length quotes" by simp
  show ?case
  proof (intro conjI allI impI)
    show "length (pnlSeries (stats_of ?st')) =
        length (pnlSeries (stats_of st)) + length (quotes @ [quote])"
      by (simp add: step len)
  next
    fix i
    assume "i < length (quotes @ [quote])"
    then consider "i < length quotes" | "i = length quotes"
      by (auto simp: less_Suc_eq)
    then show "pnlSeries (stats_of ?st') ! (length (pnlSeries (stats_of st)) + i) =
          cash (ledger_of (quote_loop f (take (Suc i) (quotes @ [quote])) st))
          + position (ledger_of (quote_loop f (take (Suc i) (quotes @ [quote])) st))
            * ((bid ((quotes @ [quote]) ! i) + ask ((quotes @ [quote]) ! i)) / 2)"
    proof cases
      case 1
      with snoc.IH len show ?thesis
        by (simp add: step nth_append)
    next
      case 2
      with len show ?thesis
        by (simp add: step nth_append)
    qed
  qed
qed

lemma tick_loop_snoc:
  "tick_loop f (ticks @ [tick]) st = tick_loop f [tick] (tick_loop f ticks st)"
proof (induction ticks arbitrary: st)
  case Nil
  show ?case by simp
next
  case (Cons t ticks)
  obtain s om stats where "st = (s, om, stats)" by (cases st)
  then show ?case by (simp add: Cons.IH Let_def split: prod.splits)
qed

lemma tick_loop_single:
  "pnlSeries (stats_of (tick_loop f [tick] st)) =
     pnlSeries (stats_of st) @
       [cash (ledger_of (tick_loop f [tick] st))
        + position (ledger_of (tick_loop f [tick] st)) * Tick.price tick]"
proof -
  obtain s om stats where "st = (s, om, stats)" by (cases st)
  then show ?thesis
    by (simp add: Let_def stats_of_def ledger_of_def pnlSeries_recordPnL getPnL_def
          split: prod.splits)
qed

lemma tick_loop_pnl:
  "length (pnlSeries (stats_of (tick_loop f ticks st))) =
     length (pnlSeries (stats_of st)) + length ticks
   \<and> (\<forall>i < length ticks.
        pnlSeries (stats_of (tick_loop f ticks st)) ! (length (pnlSeries (stats_of st)) + i) =
          cash (ledger_of (tick_loop f (take (Suc i) ticks) st))
          + position (ledger_of (tick_loop f (take (Suc i) ticks) st))
            * Tick.price (ticks ! i))"
proof (induction ticks rule: rev_induct)
  case Nil
  show ?case by simp
next
  case (snoc tick ticks)
  let ?st = "tick_loop f ticks st"
  let ?st' = "tick_loop f (ticks @ [tick]) st"
  have step: "pnlSeries (stats_of ?st') =
      pnlSeries (stats_of ?st) @
        [cash (ledger_of ?st') + position (ledger_of ?st') * Tick.price tick]"
    unfolding tick_loop_snoc by (rule tick_loop_single)
  from snoc.IH have len: "length (pnlSeries (stats_of ?st)) =
      length (pnlSeries (stats_of st)) + length ticks" by simp
  show ?case
  proof (intro conjI allI impI)
    show "length (pnlSeries (stats_of ?st')) =
        length (pnlSeries (stats_of st)) + length (ticks @ [tick])"
      by (simp add: step len)
  next
    fix i
    assume "i < length (ticks @ [tick])"
    then consider "i < length ticks" | "i = length ticks"
      by (auto simp: less_Suc_eq)
    then show "pnlSeries (stats_of ?st') ! (length (pnlSeries (stats_of st)) + i) =
          cash (ledger_of (tick_loop f (take (Suc i) (ticks @ [tick])) st))
          + position (ledger_of (tick_loop f (take (Suc i) (ticks @ [tick])) st))
            * Tick.price ((ticks @ [tick]) ! i)"
    proof cases
      case 1
      with snoc.IH len show ?thesis
        by (simp add: step nth_append)
    next
      case 2
      with len show ?thesis
        by (simp add: step nth_append)
    qed
  qed
qed


lemma finish_statistics: "statistics (fst (finish ctx st)) = stats_of st"
  by (cases st) (simp add: finish_def stats_of_def split: prod.splits)

lemma started_stats: "stats_of (started ctx) = statistics ctx"
  by (simp add: started_def stats_of_def split: prod.splits)

text \<open>
  Claim C9.  The valuation recorded per event: the run of a quote-based strategy on a
  non-empty quote series finishes and appends one value per quote to the value series, the
  value for quote \<open>i\<close> being the cash plus the position, both taken after the matching
  step of that quote, times the mid-price \<open>(bid + ask) / 2\<close> of the quote; the run of any
  other strategy on a non-empty trade series does the same with the price of the trade.
\<close>

theorem recorded_valuation_price:
  "(strategy ctx = QuoteStrategy start fin onQuote \<and> quotes \<noteq> [] \<longrightarrow>
      (\<exists>ctx' res. worker ticks quotes ctx = Inr (ctx', res)
         \<and> length (pnlSeries (statistics ctx')) =
             length (pnlSeries (statistics ctx)) + length quotes
         \<and> (\<forall>i < length quotes.
              pnlSeries (statistics ctx') ! (length (pnlSeries (statistics ctx)) + i) =
                cash (ledger_of (quote_loop onQuote (take (Suc i) quotes) (started ctx)))
                + position (ledger_of (quote_loop onQuote (take (Suc i) quotes) (started ctx)))
                  * ((bid (quotes ! i) + ask (quotes ! i)) / 2))))
   \<and> (strategy ctx = TickStrategy start fin onTrade \<and> ticks \<noteq> [] \<longrightarrow>
      (\<exists>ctx' res. worker ticks quotes ctx = Inr (ctx', res)
         \<and> length (pnlSeries (statistics ctx')) =
             length (pnlSeries (statistics ctx)) + length ticks
         \<and> (\<forall>i < length ticks.
              pnlSeries (statistics ctx') ! (length (pnlSeries (statistics ctx)) + i) =
                cash (ledger_of (tick_loop onTrade (take (Suc i) ticks) (started ctx)))
                + position (ledger_of (tick_loop onTrade (take (Suc i) ticks) (started ctx)))
                  * Tick.price (ticks ! i))))"
proof (intro conjI impI)
  assume a: "strategy ctx = QuoteStrategy start fin onQuote \<and> quotes \<noteq> []"
  define ctx' where "ctx' = fst (finish ctx (quote_loop onQuote quotes (started ctx)))"
  define res where "res = snd (finish ctx (quote_loop onQuote quotes (started ctx)))"
  from a have run: "worker ticks quotes ctx = Inr (ctx', res)"
    by (simp add: worker_def ctx'_def res_def)
  have stats: "statistics ctx' = stats_of (quote_loop onQuote quotes (started ctx))"
    by (simp add: ctx'_def finish_statistics)
  show "\<exists>ctx' res. worker ticks quotes ctx = Inr (ctx', res)
         \<and> length (pnlSeries (statistics ctx')) =
             length (pnlSeries (statistics ctx)) + length quotes
         \<and> (\<forall>i < length quotes.
              pnlSeries (statistics ctx') ! (length (pnlSeries (statistics ctx)) + i) =
                cash (ledger_of (quote_loop onQuote (take (Suc i) quotes) (started ctx)))
                + position (ledger_of (quote_loop onQuote (take (Suc i) quotes) (started ctx)))
                  * ((bid (quotes ! i) + ask (quotes ! i)) / 2))"
    using quote_loop_pnl [of onQuote quotes "started ctx"] run
    by (intro exI [of _ ctx'] exI [of _ res]) (simp add: stats started_stats)
next
  assume a: "strategy ctx = TickStrategy start fin onTrade \<and> ticks \<noteq> []"
  define ctx' where "ctx' = fst (finish ctx (tick_loop onTrade ticks (started ctx)))"
  define res where "res = snd (finish ctx (tick_loop onTrade ticks (started ctx)))"
  from a have run: "worker ticks quotes ctx = Inr (ctx', res)"
    by (simp add: worker_def ctx'_def res_def)
  have stats: "statistics ctx' = stats_of (tick_loop onTrade ticks (started ctx))"
    by (simp add: ctx'_def finish_statistics)
  show "\<exists>ctx' res. worker ticks quotes ctx = Inr (ctx', res)
         \<and> length (pnlSeries (statistics ctx')) =
             length (pnlSeries (statistics ctx)) + length ticks
         \<and> (\<forall>i < length ticks.
              pnlSeries (statistics ctx') ! (length (pnlSeries (statistics ctx)) + i) =
                cash (ledger_of (tick_loop onTrade (take (Suc i) ticks) (started ctx)))
                + position (ledger_of (tick_loop onTrade (take (Suc i) ticks) (started ctx)))
                  * Tick.price (ticks ! i))"
    using tick_loop_pnl [of onTrade ticks "started ctx"] run
    by (intro exI [of _ ctx'] exI [of _ res]) (simp add: stats started_stats)
qed


theorem recorded_valuation_price_witness:
  "(\<exists>ctx' res.
      worker [] [\<lparr>QuoteTick.timestamp = 0, bid = 99, ask = 101, volume = 5\<rparr>]
        \<lparr>name = ''Spread'',
         strategy = QuoteStrategy (\<lambda>x. x) (\<lambda>x. x)
           (\<lambda>q (s, om). (s, submit om \<lparr>side = BUY, type = MARKET,
              timestamp = QuoteTick.timestamp q, volume = 1, price = ask q\<rparr>)),
         strategyState = (), tf = MINUTE, orderManager = OrderManager_ctor 10000,
         statistics = StatsCollector_ctor\<rparr> = Inr (ctx', res)
      \<and> pnlSeries (statistics ctx') ! 0 = 9999)
   \<and> (\<exists>ctx' res.
      worker [\<lparr>Tick.timestamp = 0, price = 100, volume = 5\<rparr>] []
        \<lparr>name = ''Trend'',
         strategy = TickStrategy (\<lambda>x. x) (\<lambda>x. x)
           (\<lambda>t (s, om). (s, submit om \<lparr>side = BUY, type = MARKET,
              timestamp = Tick.timestamp t, volume = 1, price = 98\<rparr>)),
         strategyState = (), tf = MINUTE, orderManager = OrderManager_ctor 10000,
         statistics = StatsCollector_ctor\<rparr> = Inr (ctx', res)
      \<and> pnlSeries (statistics ctx') ! 0 = 10002)"
proof
  let ?f = "\<lambda>q (s :: unit, om). (s, submit om \<lparr>side = BUY, type = MARKET,
              timestamp = QuoteTick.timestamp q, volume = 1, price = ask q\<rparr>)"
  from recorded_valuation_price
    [where ctx = "\<lparr>name = ''Spread'', strategy = QuoteStrategy (\<lambda>x. x) (\<lambda>x. x) ?f,
         strategyState = (), tf = MINUTE, orderManager = OrderManager_ctor 10000,
         statistics = StatsCollector_ctor\<rparr>"
       and start = "\<lambda>x. x" and fin = "\<lambda>x. x" and onQuote = ?f
       and quotes = "[\<lparr>QuoteTick.timestamp = 0, bid = 99, ask = 101, volume = 5\<rparr>]"
       and ticks = "[]"]
  show "\<exists>ctx' res.
      worker [] [\<lparr>QuoteTick.timestamp = 0, bid = 99, ask = 101, volume = 5\<rparr>]
        \<lparr>name = ''Spread'', strategy = QuoteStrategy (\<lambda>x. x) (\<lambda>x. x) ?f,
         strategyState = (), tf = MINUTE, orderManager = OrderManager_ctor 10000,
         statistics = StatsCollector_ctor\<rparr> = Inr (ctx', res)
      \<and> pnlSeries (statistics ctx') ! 0 = 9999"
    by (simp add: Let_def started_def ledger_of_def StatsCollector_ctor_def OrderManager_ctor_def
          submit_def execute_def handleTick_quote_def) blast
next
  let ?g = "\<lambda>t (s :: unit, om). (s, submit om \<lparr>side = BUY, type = MARKET,
              timestamp = Tick.timestamp t, volume = 1, price = 98\<rparr>)"
  from recorded_valuation_price
    [where ctx = "\<lparr>name = ''Trend'', strategy = TickStrategy (\<lambda>x. x) (\<lambda>x. x) ?g,
         strategyState = (), tf = MINUTE, orderManager = OrderManager_ctor 10000,
         statistics = StatsCollector_ctor\<rparr>"
       and start = "\<lambda>x. x" and fin = "\<lambda>x. x" and onTrade = ?g
       and ticks = "[\<lparr>Tick.timestamp = 0, price = 100, volume = 5\<rparr>]"
       and quotes = "[]"]
  show "\<exists>ctx' res.
      worker [\<lparr>Tick.timestamp = 0, price = 100, volume = 5\<rparr>] []
        \<lparr>name = ''Trend'', strategy = TickStrategy (\<lambda>x. x) (\<lambda>x. x) ?g,
         strategyState = (), tf = MINUTE, orderManager = OrderManager_ctor 10000,
         statistics = StatsCollector_ctor\<rparr> = Inr (ctx', res)
      \<and> pnlSeries (statistics ctx') ! 0 = 10002"
    by (simp add: Let_def started_def ledger_of_def StatsCollector_ctor_def OrderManager_ctor_def
          submit_def execute_def handleTick_def) blast
qed

text \<open>
  Claim C2.  The claim is that a run fails fatally when the series of the strategy's kind
  is empty.  The run of a quote-based strategy on an empty quote series does not: it
  returns normally, here with the context unchanged and no statistics, whereas the run of
  any other strategy on an empty trade series ends with the exception
  \<open>No data available for backtest.\<close>
\<close>

theorem quote_strategy_without_quotes_returns:
  "(\<exists>result. worker ticks [] (ctx\<lparr>strategy := QuoteStrategy start fin onQuote\<rparr>) = Inr result)
   \<and> worker [] []
        \<lparr>name = ''Spread'', strategy = QuoteStrategy (\<lambda>x. x) (\<lambda>x. x) (\<lambda>q x. x),
         strategyState = (), tf = MINUTE, orderManager = OrderManager_ctor 10000,
         statistics = StatsCollector_ctor\<rparr> =
       Inr (\<lparr>name = ''Spread'', strategy = QuoteStrategy (\<lambda>x. x) (\<lambda>x. x) (\<lambda>q x. x),
            strategyState = (), tf = MINUTE, orderManager = OrderManager_ctor 10000,
            statistics = StatsCollector_ctor\<rparr>, ([], []))
   \<and> worker [] quotes (ctx\<lparr>strategy := TickStrategy start fin onTrade\<rparr>) =
       Inl (runtime_error ''No data available for backtest.'')"
  by (simp add: worker_def started_def finish_def computeStats_def StatsCollector_ctor_def
        split: prod.splits)

section \<open>Registering a strategy\<close>

lemma double_to_int_of_int:
  "- (2 ^ 31) \<le> c \<Longrightarrow> c \<le> 2 ^ 31 - 1 \<Longrightarrow> double_to_int (real_of_int c) = Some c"
  by (simp add: double_to_int_def)

lemma addStrategy_integral_cash:
  assumes "- (2 ^ 31) \<le> c" and "c \<le> 2 ^ 31 - 1"
  shows "\<exists>engine' ctx. addStrategy engine nm strat st timeFrame (real_of_int c) = Some engine'
     \<and> strategies engine' = strategies engine @ [ctx]
     \<and> cash (orderManager ctx) = real_of_int c
     \<and> (\<forall>p. getPnL (orderManager ctx) p = real_of_int c)"
  using assms
  by (simp add: addStrategy_def StrategyContext_ctor_def double_to_int_of_int
        OrderManager_ctor_def getPnL_def)

text \<open>
  Claim C6.  The claim is that the order manager of a registered strategy holds exactly the
  supplied initial cash, also for a value that is not an integer.  Registered with an
  initial cash of 10000.5, the order manager holds 10000, and the valuation is 10000 at
  every reference price.
\<close>

theorem addStrategy_drops_fraction:
  "addStrategy engine nm strat st timeFrame 10000.5 =
     Some (engine\<lparr>strategies := strategies engine @
       [\<lparr>name = nm, strategy = strat, strategyState = st, tf = timeFrame,
         orderManager = \<lparr>pendingOrders = [], position = 0, cash = 10000\<rparr>,
         statistics = StatsCollector_ctor\<rparr>]\<rparr>)
   \<and> getPnL \<lparr>pendingOrders = [], position = 0, cash = 10000\<rparr> p = 10000"
  by (simp add: addStrategy_def StrategyContext_ctor_def double_to_int_def
        OrderManager_ctor_def getPnL_def)

end
